theory Spec2Isabelle
  imports Complex_Main "HOL-Library.Word"
begin

section \<open>Configuration\<close>

text \<open>
  The constants of the CONFIG block of \<^verbatim>\<open>twitch_overlay.py\<close> (lines 16 to 19).
\<close>

definition SAMPLE_RATE :: nat where
  "SAMPLE_RATE = 16000"

definition BLOCKSIZE :: nat where
  "BLOCKSIZE = 2048"

definition MAX_LINES :: nat where
  "MAX_LINES = 3"

section \<open>Python values\<close>

text \<open>
  A Python \<^verbatim>\<open>str\<close> is a sequence of Unicode code points, so a text is a list of
  naturals; \<open>str\<close> embeds an ASCII literal of the source. \<open>isspace\<close> is the table
  behind \<^verbatim>\<open>str.strip()\<close> called without argument: the code points CPython
  classifies as whitespace. \<open>strip\<close> removes them from both ends.
\<close>

type_synonym codepoint = nat
type_synonym pystr = "codepoint list"

definition str :: "string \<Rightarrow> pystr" where
  "str s = map of_char s"

definition isspace :: "codepoint \<Rightarrow> bool" where
  "isspace c \<longleftrightarrow>
     (9 \<le> c \<and> c \<le> 13) \<or> (28 \<le> c \<and> c \<le> 32) \<or> c = 133 \<or> c = 160 \<or> c = 5760 \<or>
     (8192 \<le> c \<and> c \<le> 8202) \<or> c = 8232 \<or> c = 8233 \<or> c = 8239 \<or> c = 8287 \<or>
     c = 12288"

definition strip :: "pystr \<Rightarrow> pystr" where
  "strip s = rev (dropWhile isspace (rev (dropWhile isspace s)))"

text \<open>
  A sample is a finite \<^verbatim>\<open>float32\<close>, read as the real number it denotes. A frame
  is one block of the mono input stream, flattened (\<^verbatim>\<open>reshape(-1)\<close>). A line is
  the tuple \<^verbatim>\<open>(text, ts)\<close>, the time stamp being the float of
  \<^verbatim>\<open>time.time()\<close>.
\<close>

type_synonym sample = real
type_synonym frame = "sample list"
type_synonym line = "pystr \<times> real"

text \<open>
  The slice \<^verbatim>\<open>xs[-k:]\<close>: the last \<open>k\<close> elements, the whole list when it is
  shorter, and also the whole list for \<open>k = 0\<close> (where \<^verbatim>\<open>-0\<close> is \<open>0\<close>).
\<close>

definition py_last_slice :: "nat \<Rightarrow> 'a list \<Rightarrow> 'a list" where
  "py_last_slice k xs = (if k = 0 then xs else drop (length xs - k) xs)"

section \<open>List objects\<close>

text \<open>
  \<^verbatim>\<open>last_lines\<close> is one list object, mutated in place by the audio loop and
  copied by every reader. List objects live in a heap of cells addressed by references;
  \<open>next_ref\<close> is the first reference not yet allocated. \<open>py_list\<close> is
  \<^verbatim>\<open>list(x)\<close>: it allocates a new object with the elements of the old one.
  \<open>py_append\<close> is \<^verbatim>\<open>x.append(v)\<close> and \<open>py_slice_assign\<close> is
  \<^verbatim>\<open>x[:] = vs\<close>; both change the object itself. The tuples stored in the
  lists are immutable, so they are plain values.
\<close>

type_synonym ref = nat

record pyheap =
  cells :: "ref \<Rightarrow> line list"
  next_ref :: ref

definition last_lines :: ref where
  "last_lines = 0"

definition heap0 :: pyheap where
  "heap0 = \<lparr>cells = (\<lambda>_. []), next_ref = 1\<rparr>"

definition py_list :: "pyheap \<Rightarrow> ref \<Rightarrow> pyheap \<times> ref" where
  "py_list h r =
     (h\<lparr>cells := (cells h)(next_ref h := cells h r), next_ref := Suc (next_ref h)\<rparr>,
      next_ref h)"

definition py_append :: "pyheap \<Rightarrow> ref \<Rightarrow> line \<Rightarrow> pyheap" where
  "py_append h r v = h\<lparr>cells := (cells h)(r := cells h r @ [v])\<rparr>"

definition py_slice_assign :: "pyheap \<Rightarrow> ref \<Rightarrow> line list \<Rightarrow> pyheap" where
  "py_slice_assign h r vs = h\<lparr>cells := (cells h)(r := vs)\<rparr>"

definition py_len :: "pyheap \<Rightarrow> ref \<Rightarrow> nat" where
  "py_len h r = length (cells h r)"

section \<open>The audio callback\<close>

text \<open>
  The globals of the capture side are the queue \<^verbatim>\<open>audio_queue\<close> (an unbounded
  FIFO \<^verbatim>\<open>queue.Queue()\<close>, so \<^verbatim>\<open>put\<close> neither blocks nor fails), the
  heap with \<^verbatim>\<open>last_lines\<close>, and what \<^verbatim>\<open>logging\<close> has written. The
  status of a callback is the bit mask of the device's flags; it is true in a condition
  when a flag is set. \<^verbatim>\<open>indata.copy()\<close> is the frame as it is at the call.
\<close>

type_synonym callback_flags = nat

datatype log_record = LogInfo pystr | LogWarning callback_flags | LogError pystr

record world =
  audio_queue :: "frame list"
  heap :: pyheap
  log_out :: "log_record list"

definition audio_callback :: "frame \<Rightarrow> nat \<Rightarrow> 't \<Rightarrow> callback_flags \<Rightarrow> world \<Rightarrow> world" where
  "audio_callback indata frames time_info status w =
     (let w1 = (if status \<noteq> 0 then w\<lparr>log_out := log_out w @ [LogWarning status]\<rparr> else w)
      in w1\<lparr>audio_queue := audio_queue w1 @ [indata]\<rparr>)"

section \<open>The microphone to Whisper loop\<close>

text \<open>
  Line 134: \<^verbatim>\<open>len(buffer) >= SAMPLE_RATE * 1.5\<close>, an integer compared with a float.
\<close>

definition threshold_reached :: "sample list \<Rightarrow> bool" where
  "threshold_reached buffer \<longleftrightarrow> real SAMPLE_RATE * 1.5 \<le> real (length buffer)"

text \<open>
  Line 135: \<^verbatim>\<open>(buffer * 32767).astype(np.int16)\<close>. The product of a
  \<^verbatim>\<open>float32\<close> and 32767 is the exact product rounded to \<^verbatim>\<open>float32\<close>;
  the rounding \<open>rnd\<close> is a parameter. \<^verbatim>\<open>astype\<close> drops the fraction (towards
  zero); the cast goes through a 32-bit integer, of which the low 16 bits are kept, and
  a value beyond the 32-bit range gives 0.
\<close>

definition trunc_zero :: "real \<Rightarrow> int" where
  "trunc_zero x = (if 0 \<le> x then \<lfloor>x\<rfloor> else \<lceil>x\<rceil>)"

definition astype_int16 :: "real \<Rightarrow> 16 word" where
  "astype_int16 x =
     (let i = trunc_zero x
      in if - 2147483648 \<le> i \<and> i \<le> 2147483647 then word_of_int i else 0)"

definition to_pcm :: "(real \<Rightarrow> real) \<Rightarrow> sample list \<Rightarrow> 16 word list" where
  "to_pcm rnd buffer = map (\<lambda>s. astype_int16 (rnd (s * 32767))) buffer"

text \<open>
  What the surroundings contribute to one pass of the loop: \<open>engine\<close> is the outcome of
  lines 138 to 144 (writing the clip to the wave file and
  \<^verbatim>\<open>model.transcribe\<close>) on the PCM data, either an exception with its message
  or the \<^verbatim>\<open>result["text"]\<close>; \<open>clock\<close> is what \<^verbatim>\<open>time.time()\<close>
  returns.
\<close>

datatype engine_result = Raises pystr | Returns pystr

record env =
  engine :: "16 word list \<Rightarrow> engine_result"
  clock :: real

text \<open>
  Lines 151 to 154, the critical section under \<^verbatim>\<open>lock\<close>.
\<close>

definition append_line :: "line \<Rightarrow> pyheap \<Rightarrow> pyheap" where
  "append_line l h =
     (let h1 = py_append h last_lines l
      in if MAX_LINES < py_len h1 last_lines
         then py_slice_assign h1 last_lines (py_last_slice MAX_LINES (cells h1 last_lines))
         else h1)"

text \<open>
  Lines 135 to 157: one clip is converted, transcribed and, when the stripped text is not
  empty, logged and appended. Every exception of the \<^verbatim>\<open>try\<close> block is caught
  and logged.
\<close>

definition transcribe_segment :: "(real \<Rightarrow> real) \<Rightarrow> env \<Rightarrow> sample list \<Rightarrow> world \<Rightarrow> world" where
  "transcribe_segment rnd e buffer w =
     (let pcm = to_pcm rnd buffer
      in case engine e pcm of
           Raises err \<Rightarrow> w\<lparr>log_out := log_out w @ [LogError (str ''Whisper error: '' @ err)]\<rparr>
         | Returns txt \<Rightarrow>
             (let text = strip txt
              in if text \<noteq> []
                 then w\<lparr>log_out := log_out w @ [LogInfo (str ''Detected: '' @ text)],
                        heap := append_line (text, clock e) (heap w)\<rparr>
                 else w))"

text \<open>
  One pass of the \<^verbatim>\<open>while True\<close> loop (lines 131 to 159) on the local
  \<^verbatim>\<open>buffer\<close> and the globals. \<^verbatim>\<open>audio_queue.get()\<close> blocks on an empty
  queue: the pass does not happen (\<open>None\<close>). Otherwise the result is the new buffer,
  the new globals, and the clip handed to the engine in this pass, if any.
\<close>

definition process_audio_body ::
  "(real \<Rightarrow> real) \<Rightarrow> env \<Rightarrow> sample list \<times> world \<Rightarrow> ((sample list \<times> world) \<times> sample list option) option" where
  "process_audio_body rnd e bw =
     (case bw of (buffer, w) \<Rightarrow>
        (case audio_queue w of
           [] \<Rightarrow> None
         | block # rest \<Rightarrow>
             (let w1 = w\<lparr>audio_queue := rest\<rparr>;
                  buffer1 = buffer @ block
              in if threshold_reached buffer1
                 then Some (([], transcribe_segment rnd e buffer1 w1), Some buffer1)
                 else Some ((buffer1, w1), None))))"

text \<open>
  The loop, run for as many passes as surroundings are given, one per pass; it stops
  early only where \<^verbatim>\<open>get\<close> blocks. The result lists the clips in the order
  they were handed to the engine.
\<close>

fun process_audio_loop ::
  "(real \<Rightarrow> real) \<Rightarrow> env list \<Rightarrow> sample list \<times> world \<Rightarrow> (sample list \<times> world) \<times> sample list list" where
  "process_audio_loop rnd [] bw = (bw, [])"
| "process_audio_loop rnd (e # es) bw =
     (case process_audio_body rnd e bw of
        None \<Rightarrow> (bw, [])
      | Some (bw1, seg) \<Rightarrow>
          (case process_audio_loop rnd es bw1 of
             (bw2, segs) \<Rightarrow> (bw2, (case seg of None \<Rightarrow> segs | Some s \<Rightarrow> s # segs))))"

text \<open>
  \<^verbatim>\<open>process_audio\<close>: the start message (with the arrow U+2192), an empty
  buffer, then the loop.
\<close>

definition process_audio ::
  "(real \<Rightarrow> real) \<Rightarrow> env list \<Rightarrow> world \<Rightarrow> (sample list \<times> world) \<times> sample list list" where
  "process_audio rnd es w =
     process_audio_loop rnd es
       ([], w\<lparr>log_out := log_out w @ [LogInfo (str ''Mic '' @ [8594] @ str '' Whisper loop running...'')]\<rparr>)"

section \<open>The event stream\<close>

text \<open>
  Lines 113 and 114: \<^verbatim>\<open>with lock: cur = list(last_lines)\<close>, a copy of the
  list object taken under the lock.
\<close>

definition snapshot :: "pyheap \<Rightarrow> pyheap \<times> ref" where
  "snapshot h = py_list h last_lines"

text \<open>
  Line 115: \<^verbatim>\<open>cur != prev\<close>, where \<^verbatim>\<open>prev\<close> is \<^verbatim>\<open>None\<close> or
  a list. A list differs from \<^verbatim>\<open>None\<close>; two lists are compared by their
  elements.
\<close>

definition py_ne :: "pyheap \<Rightarrow> ref \<Rightarrow> ref option \<Rightarrow> bool" where
  "py_ne h cur prev = (case prev of None \<Rightarrow> True | Some p \<Rightarrow> cells h cur \<noteq> cells h p)"

text \<open>
  Lines 116 to 118. The event is the string
  \<^verbatim>\<open>"data: " + json.dumps(v) + "\n\n"\<close>; it is kept as the value \<open>v\<close> given
  to \<^verbatim>\<open>json.dumps\<close>.
\<close>

datatype json = JString pystr | JNumber real | JArray "json list" | JObject "(pystr \<times> json) list"

datatype sse_event = Data json

definition line_json :: "line \<Rightarrow> json" where
  "line_json l = (case l of (t, ts) \<Rightarrow> JObject [(str ''text'', JString t), (str ''ts'', JNumber ts)])"

definition event_of :: "line list \<Rightarrow> sse_event" where
  "event_of cur = Data (JArray (map line_json cur))"

text \<open>
  One pass of the generator's loop (lines 113 to 120) on its local \<^verbatim>\<open>prev\<close>
  and the heap: the new \<^verbatim>\<open>prev\<close>, the new heap and what the pass yields.
\<close>

definition event_stream_body :: "ref option \<times> pyheap \<Rightarrow> (ref option \<times> pyheap) \<times> sse_event list" where
  "event_stream_body ph =
     (case ph of (prev, h) \<Rightarrow>
        (case snapshot h of (h1, cur) \<Rightarrow>
           if py_ne h1 cur prev
           then ((Some cur, h1), [event_of (cells h1 cur)])
           else ((prev, h1), [])))"

text \<open>
  The generator runs beside the audio loop, whose only access to
  \<^verbatim>\<open>last_lines\<close> is the critical section \<open>append_line\<close>; the lock makes
  that section and the snapshot exclude each other. A run of one connection is
  therefore a sequence of appends by the audio loop and passes of the generator.
\<close>

datatype store_op = Append line | Poll

fun event_stream_loop ::
  "store_op list \<Rightarrow> ref option \<times> pyheap \<Rightarrow> (ref option \<times> pyheap) \<times> sse_event list" where
  "event_stream_loop [] ph = (ph, [])"
| "event_stream_loop (Append l # ops) ph = event_stream_loop ops (fst ph, append_line l (snd ph))"
| "event_stream_loop (Poll # ops) ph =
     (case event_stream_body ph of
        (ph1, out) \<Rightarrow> (case event_stream_loop ops ph1 of (ph2, evs) \<Rightarrow> (ph2, out @ evs)))"

text \<open>
  \<^verbatim>\<open>event_stream\<close>: a new connection starts with \<^verbatim>\<open>prev = None\<close>.
\<close>

definition event_stream ::
  "store_op list \<Rightarrow> pyheap \<Rightarrow> (ref option \<times> pyheap) \<times> sse_event list" where
  "event_stream ops h = event_stream_loop ops (None, h)"

section \<open>The PCM conversion\<close>

lemma trunc_zero_bounds:
  assumes "- 32767 \<le> x" and "x \<le> 32767"
  shows "- 32767 \<le> trunc_zero x \<and> trunc_zero x \<le> 32767"
  using assms unfolding trunc_zero_def
  by (auto simp: le_floor_iff ceiling_le_iff floor_le_iff le_ceiling_iff)

lemma sint_astype_int16:
  assumes "- 32767 \<le> x" and "x \<le> 32767"
  shows "sint (astype_int16 x) = trunc_zero x"
proof -
  have b: "- 32767 \<le> trunc_zero x \<and> trunc_zero x \<le> 32767"
    using assms by (rule trunc_zero_bounds)
  have "sint (word_of_int (trunc_zero x) :: 16 word) = signed_take_bit 15 (trunc_zero x)"
    by (simp add: sint_sbintrunc')
  also have "\<dots> = trunc_zero x"
    using b by (simp add: signed_take_bit_int_eq_self)
  finally show ?thesis using b by (simp add: astype_int16_def Let_def)
qed

lemma rnd_bounds:
  assumes "mono rnd" and "rnd 32767 = 32767" and "rnd (- 32767) = - 32767"
    and "- 1 \<le> s" and "s \<le> (1::real)"
  shows "- 32767 \<le> rnd (s * 32767) \<and> rnd (s * 32767) \<le> (32767::real)"
proof -
  have "s * 32767 \<le> 32767" and "- 32767 \<le> s * 32767"
    using assms(4,5) by simp_all
  then have "rnd (s * 32767) \<le> rnd 32767" and "rnd (- 32767) \<le> rnd (s * 32767)"
    using assms(1) by (simp_all add: monoD)
  then show ?thesis using assms(2,3) by simp
qed

text \<open>
  Claim C9. For a buffer whose samples all lie between \<open>-1\<close> and \<open>1\<close>, every value
  of the 16-bit PCM data, read as a signed integer, is the truncated product itself and
  lies between \<open>-32767\<close> and \<open>32767\<close>: nothing wraps around. The rounding of the
  \<^verbatim>\<open>float32\<close> product is any monotone function that leaves \<open>32767\<close> and
  \<open>-32767\<close> (both \<^verbatim>\<open>float32\<close> values) as they are, as every IEEE rounding
  mode does.
\<close>

theorem pcm_within_int16:
  assumes "mono rnd" and "rnd 32767 = 32767" and "rnd (- 32767) = - 32767"
    and "\<forall>s\<in>set buffer. - 1 \<le> s \<and> s \<le> 1"
  shows "map sint (to_pcm rnd buffer) = map (\<lambda>s. trunc_zero (rnd (s * 32767))) buffer \<and>
         (\<forall>p\<in>set (to_pcm rnd buffer). - 32767 \<le> sint p \<and> sint p \<le> 32767)"
proof -
  have one: "sint (astype_int16 (rnd (s * 32767))) = trunc_zero (rnd (s * 32767)) \<and>
             - 32767 \<le> trunc_zero (rnd (s * 32767)) \<and> trunc_zero (rnd (s * 32767)) \<le> 32767"
    if "s \<in> set buffer" for s
  proof -
    have r: "- 32767 \<le> rnd (s * 32767) \<and> rnd (s * 32767) \<le> 32767"
      using assms that by (intro rnd_bounds) auto
    then show ?thesis
      using sint_astype_int16 [of "rnd (s * 32767)"] trunc_zero_bounds [of "rnd (s * 32767)"]
      by simp
  qed
  have "map sint (to_pcm rnd buffer) = map (\<lambda>s. trunc_zero (rnd (s * 32767))) buffer"
    unfolding to_pcm_def using one by simp
  moreover have "\<forall>p\<in>set (to_pcm rnd buffer). - 32767 \<le> sint p \<and> sint p \<le> 32767"
    unfolding to_pcm_def using one by auto
  ultimately show ?thesis by simp
qed

theorem pcm_within_int16_witness:
  "mono (\<lambda>x::real. x) \<and>
   map sint (to_pcm (\<lambda>x. x) [1, - 1, 1 / 2, - 1 / 2, 0]) = [32767, - 32767, 16383, - 16383, 0]"
proof -
  have m: "mono (\<lambda>x::real. x)" by (simp add: mono_def)
  have b: "\<forall>s\<in>set [1, - 1, 1 / 2, - 1 / 2, 0::real]. - 1 \<le> s \<and> s \<le> 1" by simp
  show ?thesis
    using m pcm_within_int16 [of "\<lambda>x. x" "[1, - 1, 1 / 2, - 1 / 2, 0]", OF m _ _ b]
    by (simp add: trunc_zero_def)
qed

section \<open>Clips and frames\<close>

lemma threshold_reached_iff: "threshold_reached buffer \<longleftrightarrow> 24000 \<le> length buffer"
proof -
  have "real SAMPLE_RATE * 1.5 = real 24000"
    by (simp add: SAMPLE_RATE_def)
  then show ?thesis
    unfolding threshold_reached_def by (simp only: of_nat_le_iff)
qed

lemma audio_queue_transcribe_segment [simp]:
  "audio_queue (transcribe_segment rnd e buffer w) = audio_queue w"
  by (simp add: transcribe_segment_def Let_def split: engine_result.splits)

lemma process_audio_body_Nil:
  "audio_queue w = [] \<Longrightarrow> process_audio_body rnd e (buffer, w) = None"
  by (simp add: process_audio_body_def)

lemma process_audio_body_Cons:
  "audio_queue w = block # rest \<Longrightarrow>
   process_audio_body rnd e (buffer, w) =
     (if threshold_reached (buffer @ block)
      then Some (([], transcribe_segment rnd e (buffer @ block) (w\<lparr>audio_queue := rest\<rparr>)),
                 Some (buffer @ block))
      else Some ((buffer @ block, w\<lparr>audio_queue := rest\<rparr>), None))"
  by (simp add: process_audio_body_def Let_def)

lemma process_audio_loop_partition:
  "process_audio_loop rnd es (buffer, w) = ((buffer', w'), segs) \<Longrightarrow>
   concat segs @ buffer' @ concat (audio_queue w') = buffer @ concat (audio_queue w)"
proof (induction es arbitrary: buffer w buffer' w' segs)
  case Nil
  then show ?case by simp
next
  case (Cons e es)
  show ?case
  proof (cases "audio_queue w")
    case Nil
    with Cons.prems show ?thesis by (simp add: process_audio_body_Nil)
  next
    case (Cons block rest)
    note q = this
    show ?thesis
    proof (cases "threshold_reached (buffer @ block)")
      case True
      let ?w1 = "transcribe_segment rnd e (buffer @ block) (w\<lparr>audio_queue := rest\<rparr>)"
      obtain bw2 segs2 where r: "process_audio_loop rnd es ([], ?w1) = (bw2, segs2)"
        by (cases "process_audio_loop rnd es ([], ?w1)")
      with Cons.prems q True have "bw2 = (buffer', w')" and "segs = (buffer @ block) # segs2"
        by (simp_all add: process_audio_body_Cons)
      with r Cons.IH [of "[]" ?w1 buffer' w' segs2] q show ?thesis by simp
    next
      case False
      let ?w1 = "w\<lparr>audio_queue := rest\<rparr>"
      obtain bw2 segs2 where r: "process_audio_loop rnd es (buffer @ block, ?w1) = (bw2, segs2)"
        by (cases "process_audio_loop rnd es (buffer @ block, ?w1)")
      with Cons.prems q False have "bw2 = (buffer', w')" and "segs = segs2"
        by (simp_all add: process_audio_body_Cons)
      with r Cons.IH [of "buffer @ block" ?w1 buffer' w' segs2] q show ?thesis by simp
    qed
  qed
qed

lemma process_audio_loop_segments:
  "process_audio_loop rnd es (buffer, w) = ((buffer', w'), segs) \<Longrightarrow>
   \<not> threshold_reached buffer \<Longrightarrow>
   (\<forall>seg\<in>set segs. threshold_reached seg) \<and> \<not> threshold_reached buffer'"
proof (induction es arbitrary: buffer w buffer' w' segs)
  case Nil
  then show ?case by simp
next
  case (Cons e es)
  show ?case
  proof (cases "audio_queue w")
    case Nil
    with Cons.prems show ?thesis by (simp add: process_audio_body_Nil)
  next
    case q: (Cons block rest)
    show ?thesis
    proof (cases "threshold_reached (buffer @ block)")
      case True
      let ?w1 = "transcribe_segment rnd e (buffer @ block) (w\<lparr>audio_queue := rest\<rparr>)"
      obtain bw2 segs2 where r: "process_audio_loop rnd es ([], ?w1) = (bw2, segs2)"
        by (cases "process_audio_loop rnd es ([], ?w1)")
      with Cons.prems q True have "bw2 = (buffer', w')" and "segs = (buffer @ block) # segs2"
        by (simp_all add: process_audio_body_Cons)
      moreover have "\<not> threshold_reached []"
        by (simp add: threshold_reached_iff)
      ultimately show ?thesis
        using r Cons.IH [of "[]" ?w1 buffer' w' segs2] True by simp
    next
      case False
      let ?w1 = "w\<lparr>audio_queue := rest\<rparr>"
      obtain bw2 segs2 where r: "process_audio_loop rnd es (buffer @ block, ?w1) = (bw2, segs2)"
        by (cases "process_audio_loop rnd es (buffer @ block, ?w1)")
      with Cons.prems q False have "bw2 = (buffer', w')" and "segs = segs2"
        by (simp_all add: process_audio_body_Cons)
      with r Cons.IH [of "buffer @ block" ?w1 buffer' w' segs2] False show ?thesis by simp
    qed
  qed
qed

lemma process_audio_loop_queue:
  "process_audio_loop rnd es (buffer, w) = ((buffer', w'), segs) \<Longrightarrow>
   audio_queue w' = drop (length es) (audio_queue w)"
proof (induction es arbitrary: buffer w buffer' w' segs)
  case Nil
  then show ?case by simp
next
  case (Cons e es)
  show ?case
  proof (cases "audio_queue w")
    case Nil
    with Cons.prems show ?thesis by (simp add: process_audio_body_Nil)
  next
    case q: (Cons block rest)
    show ?thesis
    proof (cases "threshold_reached (buffer @ block)")
      case True
      let ?w1 = "transcribe_segment rnd e (buffer @ block) (w\<lparr>audio_queue := rest\<rparr>)"
      obtain bw2 segs2 where r: "process_audio_loop rnd es ([], ?w1) = (bw2, segs2)"
        by (cases "process_audio_loop rnd es ([], ?w1)")
      with Cons.prems q True have "bw2 = (buffer', w')"
        by (simp_all add: process_audio_body_Cons)
      with r Cons.IH [of "[]" ?w1 buffer' w' segs2] q show ?thesis by simp
    next
      case False
      let ?w1 = "w\<lparr>audio_queue := rest\<rparr>"
      obtain bw2 segs2 where r: "process_audio_loop rnd es (buffer @ block, ?w1) = (bw2, segs2)"
        by (cases "process_audio_loop rnd es (buffer @ block, ?w1)")
      with Cons.prems q False have "bw2 = (buffer', w')"
        by (simp_all add: process_audio_body_Cons)
      with r Cons.IH [of "buffer @ block" ?w1 buffer' w' segs2] q show ?thesis by simp
    qed
  qed
qed

lemma process_audio_loop_excess:
  "process_audio_loop rnd es (buffer, w) = ((buffer', w'), segs) \<Longrightarrow>
   \<not> threshold_reached buffer \<Longrightarrow>
   \<forall>f\<in>set (audio_queue w). length f \<le> n \<Longrightarrow>
   \<forall>seg\<in>set segs. length seg < 24000 + n"
proof (induction es arbitrary: buffer w buffer' w' segs)
  case Nil
  then show ?case by simp
next
  case (Cons e es)
  show ?case
  proof (cases "audio_queue w")
    case Nil
    with Cons.prems show ?thesis by (simp add: process_audio_body_Nil)
  next
    case q: (Cons block rest)
    have fr: "\<forall>f\<in>set rest. length f \<le> n" and bl: "length block \<le> n"
      using Cons.prems(3) q by simp_all
    show ?thesis
    proof (cases "threshold_reached (buffer @ block)")
      case True
      let ?w1 = "transcribe_segment rnd e (buffer @ block) (w\<lparr>audio_queue := rest\<rparr>)"
      obtain bw2 segs2 where r: "process_audio_loop rnd es ([], ?w1) = (bw2, segs2)"
        by (cases "process_audio_loop rnd es ([], ?w1)")
      with Cons.prems q True have e: "bw2 = (buffer', w')" "segs = (buffer @ block) # segs2"
        by (simp_all add: process_audio_body_Cons)
      have "\<not> threshold_reached []"
        by (simp add: threshold_reached_iff)
      then have "\<forall>seg\<in>set segs2. length seg < 24000 + n"
        using r e Cons.IH [of "[]" ?w1 buffer' w' segs2] fr by simp
      moreover have "length (buffer @ block) < 24000 + n"
        using Cons.prems(2) bl by (simp add: threshold_reached_iff)
      ultimately show ?thesis using e by simp
    next
      case False
      let ?w1 = "w\<lparr>audio_queue := rest\<rparr>"
      obtain bw2 segs2 where r: "process_audio_loop rnd es (buffer @ block, ?w1) = (bw2, segs2)"
        by (cases "process_audio_loop rnd es (buffer @ block, ?w1)")
      with Cons.prems q False have "bw2 = (buffer', w')" and "segs = segs2"
        by (simp_all add: process_audio_body_Cons)
      with r Cons.IH [of "buffer @ block" ?w1 buffer' w' segs2] False fr show ?thesis by simp
    qed
  qed
qed

lemma threshold_reached_mono:
  "threshold_reached xs \<Longrightarrow> length xs \<le> length ys \<Longrightarrow> threshold_reached ys"
  by (simp add: threshold_reached_iff)

lemma segments_none_below_threshold:
  assumes "process_audio_loop rnd es (buffer, w) = ((buffer', w'), segs)"
    and "\<not> threshold_reached buffer"
    and "\<not> threshold_reached (buffer @ concat (audio_queue w))"
  shows "segs = []"
proof (rule ccontr)
  assume "segs \<noteq> []"
  then obtain seg rest where s: "segs = seg # rest" by (cases segs) auto
  have "threshold_reached seg"
    using process_audio_loop_segments [OF assms(1,2)] s by simp
  moreover have "length seg \<le> length (buffer @ concat (audio_queue w))"
  proof -
    have "length (concat segs @ buffer' @ concat (audio_queue w')) = length (buffer @ concat (audio_queue w))"
      using process_audio_loop_partition [OF assms(1)] by simp
    then show ?thesis using s by simp
  qed
  ultimately show False using assms(3) threshold_reached_mono by blast
qed

lemma not_threshold_reached_Nil: "\<not> threshold_reached []"
  by (simp add: threshold_reached_iff)

text \<open>
  Claim C1, as the code has it. Run \<^verbatim>\<open>process_audio\<close> for any number of passes
  on any queue of pushed frames. The clips handed to the engine, then the samples still
  in the buffer, then the frames still in the queue, are together exactly the pushed
  samples in their order: nothing is lost, nothing twice. With at least as many passes
  as frames the queue is drained. Every clip reaches the threshold of line 134, the
  buffer left over does not, and frames that together stay below the threshold give no
  clip at all.
\<close>

theorem segments_partition_frames:
  assumes "process_audio rnd es w = ((buffer', w'), segs)"
  shows "concat segs @ buffer' @ concat (audio_queue w') = concat (audio_queue w) \<and>
         audio_queue w' = drop (length es) (audio_queue w) \<and>
         (\<forall>seg\<in>set segs. threshold_reached seg) \<and>
         \<not> threshold_reached buffer' \<and>
         (\<not> threshold_reached (concat (audio_queue w)) \<longrightarrow> segs = [])"
proof -
  let ?w0 = "w\<lparr>log_out := log_out w @ [LogInfo (str ''Mic '' @ [8594] @ str '' Whisper loop running...'')]\<rparr>"
  have run: "process_audio_loop rnd es ([], ?w0) = ((buffer', w'), segs)"
    using assms by (simp add: process_audio_def)
  have q: "audio_queue ?w0 = audio_queue w" by simp
  have "concat segs @ buffer' @ concat (audio_queue w') = concat (audio_queue w)"
    using process_audio_loop_partition [OF run] by simp
  moreover have "audio_queue w' = drop (length es) (audio_queue w)"
    using process_audio_loop_queue [OF run] by simp
  moreover have "(\<forall>seg\<in>set segs. threshold_reached seg) \<and> \<not> threshold_reached buffer'"
    using process_audio_loop_segments [OF run not_threshold_reached_Nil] .
  moreover have "segs = []" if "\<not> threshold_reached (concat (audio_queue w))"
    using segments_none_below_threshold [OF run not_threshold_reached_Nil] that by simp
  ultimately show ?thesis by blast
qed

theorem segments_partition_frames_witness:
  "let r = process_audio (\<lambda>x. x)
             [\<lparr>engine = (\<lambda>pcm. Returns (str ''hei'')), clock = 1\<rparr>,
              \<lparr>engine = (\<lambda>pcm. Returns (str ''hei'')), clock = 2\<rparr>]
             \<lparr>audio_queue = [replicate 24000 0, [1]], heap = heap0, log_out = []\<rparr>
   in snd r = [replicate 24000 0] \<and> fst (fst r) = [1] \<and> audio_queue (snd (fst r)) = [] \<and>
      concat (snd r) @ fst (fst r) = replicate 24000 0 @ [1] \<and>
      threshold_reached (replicate 24000 0) \<and> \<not> threshold_reached [1]"
proof -
  let ?es = "[\<lparr>engine = (\<lambda>pcm. Returns (str ''hei'')), clock = 1\<rparr>,
              \<lparr>engine = (\<lambda>pcm. Returns (str ''hei'')), clock = 2\<rparr>]"
  let ?w = "\<lparr>audio_queue = [replicate 24000 0, [1]], heap = heap0, log_out = []\<rparr>"
  obtain buffer' w' segs where run: "process_audio (\<lambda>x. x) ?es ?w = ((buffer', w'), segs)"
    by (metis prod.exhaust)
  have segs: "segs = [replicate 24000 0]" and buf: "buffer' = [1]"
    using run
    by (simp_all add: process_audio_def process_audio_body_def threshold_reached_iff Let_def)
  have "concat segs @ buffer' @ concat (audio_queue w') = concat (audio_queue ?w) \<and>
        audio_queue w' = drop (length ?es) (audio_queue ?w) \<and>
        (\<forall>seg\<in>set segs. threshold_reached seg) \<and> \<not> threshold_reached buffer'"
    using segments_partition_frames [OF run] by blast
  then show ?thesis
    unfolding Let_def run using segs buf by simp
qed

text \<open>
  The clips alone are not the pushed samples: one pushed frame of one sample is still in
  the buffer after its pass, and no clip has been produced.
\<close>

theorem segments_concat_counterexample:
  "concat (snd (process_audio (\<lambda>x. x) [\<lparr>engine = (\<lambda>pcm. Returns []), clock = 0\<rparr>]
                  \<lparr>audio_queue = [[1]], heap = heap0, log_out = []\<rparr>))
   \<noteq> concat (audio_queue \<lparr>audio_queue = [[1]], heap = heap0, log_out = []\<rparr>)"
  by (simp add: process_audio_def process_audio_body_def threshold_reached_iff Let_def)

text \<open>
  Claim C5. Started by \<^verbatim>\<open>process_audio\<close> on an empty buffer, every clip has at
  least \<open>SAMPLE_RATE * 1.5\<close> samples, and when no frame has more than \<open>n\<close> samples
  it has fewer than \<open>SAMPLE_RATE * 1.5 + n\<close>: the check of line 134 follows each
  appended frame, so a clip passes the threshold by less than one frame.
\<close>

theorem segment_length_bounds:
  assumes "process_audio rnd es w = ((buffer', w'), segs)"
    and "\<forall>f\<in>set (audio_queue w). length f \<le> n"
  shows "\<forall>seg\<in>set segs. real SAMPLE_RATE * 1.5 \<le> real (length seg) \<and>
                          real (length seg) < real SAMPLE_RATE * 1.5 + real n"
proof -
  let ?w0 = "w\<lparr>log_out := log_out w @ [LogInfo (str ''Mic '' @ [8594] @ str '' Whisper loop running...'')]\<rparr>"
  have run: "process_audio_loop rnd es ([], ?w0) = ((buffer', w'), segs)"
    using assms(1) by (simp add: process_audio_def)
  have fr: "\<forall>f\<in>set (audio_queue ?w0). length f \<le> n"
    using assms(2) by simp
  have lo: "\<forall>seg\<in>set segs. threshold_reached seg"
    using process_audio_loop_segments [OF run not_threshold_reached_Nil] by blast
  have hi: "\<forall>seg\<in>set segs. length seg < 24000 + n"
    using process_audio_loop_excess [OF run not_threshold_reached_Nil fr] .
  have thr: "real SAMPLE_RATE * 1.5 = 24000"
    by (simp add: SAMPLE_RATE_def)
  show ?thesis
  proof
    fix seg assume s: "seg \<in> set segs"
    have "real SAMPLE_RATE * 1.5 \<le> real (length seg)"
      using lo s by (simp add: threshold_reached_def)
    moreover have "real (length seg) < real (24000 + n)"
      using hi s by (simp only: of_nat_less_iff)
    ultimately show "real SAMPLE_RATE * 1.5 \<le> real (length seg) \<and>
                     real (length seg) < real SAMPLE_RATE * 1.5 + real n"
      using thr by simp
  qed
qed

theorem segment_length_bounds_witness:
  "let f = replicate 2048 (0::real);
       e = \<lparr>engine = (\<lambda>pcm. Raises (str ''no model'')), clock = 0\<rparr>;
       r = process_audio (\<lambda>x. x) [e, e, e, e, e, e, e, e, e, e, e, e]
             \<lparr>audio_queue = [f, f, f, f, f, f, f, f, f, f, f, f], heap = heap0, log_out = []\<rparr>
   in map length (snd r) = [24576] \<and>
      real SAMPLE_RATE * 1.5 \<le> real (24576::nat) \<and>
      real (24576::nat) < real SAMPLE_RATE * 1.5 + real BLOCKSIZE"
proof -
  let ?f = "replicate 2048 (0::real)"
  let ?e = "\<lparr>engine = (\<lambda>pcm. Raises (str ''no model'')), clock = 0\<rparr>"
  let ?es = "[?e, ?e, ?e, ?e, ?e, ?e, ?e, ?e, ?e, ?e, ?e, ?e]"
  let ?w = "\<lparr>audio_queue = [?f, ?f, ?f, ?f, ?f, ?f, ?f, ?f, ?f, ?f, ?f, ?f], heap = heap0, log_out = []\<rparr>"
  obtain buffer' w' segs where run: "process_audio (\<lambda>x. x) ?es ?w = ((buffer', w'), segs)"
    by (metis prod.exhaust)
  have len: "map length segs = [24576]"
    using run by (auto simp add: process_audio_def process_audio_body_def threshold_reached_iff Let_def)
  have fr: "\<forall>f\<in>set (audio_queue ?w). length f \<le> BLOCKSIZE"
    by (simp add: BLOCKSIZE_def)
  have "\<forall>seg\<in>set segs. real SAMPLE_RATE * 1.5 \<le> real (length seg) \<and>
                          real (length seg) < real SAMPLE_RATE * 1.5 + real BLOCKSIZE"
    using segment_length_bounds [OF run fr] .
  moreover obtain seg where "segs = [seg]" and "length seg = 24576"
    using len by auto
  ultimately have "real SAMPLE_RATE * 1.5 \<le> real (24576::nat) \<and>
      real (24576::nat) < real SAMPLE_RATE * 1.5 + real BLOCKSIZE"
    by simp
  then show ?thesis
    unfolding Let_def run using len by simp
qed

section \<open>The capture callback\<close>

text \<open>
  Claim C10. With a status flag set the callback writes one warning and appends the
  frame to the queue; it changes nothing else and has no failing branch. Whatever the
  status, the queue grows by exactly the frame, so after any sequence of callbacks the
  queue holds every frame in order behind what it held before.
\<close>

theorem audio_callback_keeps_frame:
  "(status \<noteq> 0 \<longrightarrow>
      audio_callback indata frames time_info status w =
        w\<lparr>audio_queue := audio_queue w @ [indata], log_out := log_out w @ [LogWarning status]\<rparr>) \<and>
   audio_queue (audio_callback indata frames time_info status w) = audio_queue w @ [indata] \<and>
   audio_queue (foldl (\<lambda>w (f, st). audio_callback f frames time_info st w) w calls) =
     audio_queue w @ map fst calls"
proof -
  have one: "audio_queue (audio_callback f m t st v) = audio_queue v @ [f]" for f m and t :: 't and st v
    by (simp add: audio_callback_def Let_def)
  have "audio_queue (foldl (\<lambda>w (f, st). audio_callback f frames time_info st w) w calls) =
     audio_queue w @ map fst calls"
    by (induction calls arbitrary: w) (auto simp: one)
  then show ?thesis
    by (simp add: audio_callback_def Let_def)
qed

theorem audio_callback_keeps_frame_witness:
  "(2::nat) \<noteq> 0 \<and>
   audio_callback [1 / 2, - 1 / 2] 2 () 2 \<lparr>audio_queue = [[0, 0]], heap = heap0, log_out = []\<rparr> =
     \<lparr>audio_queue = [[0, 0], [1 / 2, - 1 / 2]], heap = heap0, log_out = [LogWarning 2]\<rparr>"
  using audio_callback_keeps_frame [of 2 "[1 / 2, - 1 / 2]" 2 "()" "\<lparr>audio_queue = [[0, 0]], heap = heap0, log_out = []\<rparr>" "[]"]
  by simp

section \<open>Transcription results\<close>

lemma strip_all_space:
  assumes "\<forall>c\<in>set txt. isspace c"
  shows "strip txt = []"
proof -
  have "dropWhile isspace txt = []"
    using assms by simp
  then show ?thesis
    unfolding strip_def by (simp only: rev.simps dropWhile.simps)
qed

text \<open>
  Claim C6. In a pass that closes a clip for which the engine returns only whitespace
  (or nothing), the stripped text is empty and nothing is appended: the pass takes the
  frame from the queue and resets the buffer; the heap with \<^verbatim>\<open>last_lines\<close>
  (so its length and contents) and the log are as before.
\<close>

theorem blank_text_leaves_store:
  assumes "audio_queue w = block # rest"
    and "threshold_reached (buffer @ block)"
    and "engine e (to_pcm rnd (buffer @ block)) = Returns txt"
    and "\<forall>c\<in>set txt. isspace c"
  shows "strip txt = [] \<and>
         process_audio_body rnd e (buffer, w) =
           Some (([], w\<lparr>audio_queue := rest\<rparr>), Some (buffer @ block)) \<and>
         heap (transcribe_segment rnd e (buffer @ block) (w\<lparr>audio_queue := rest\<rparr>)) = heap w \<and>
         log_out (transcribe_segment rnd e (buffer @ block) (w\<lparr>audio_queue := rest\<rparr>)) = log_out w"
proof -
  have s: "strip txt = []"
    using assms(4) by (rule strip_all_space)
  have t: "transcribe_segment rnd e (buffer @ block) (w\<lparr>audio_queue := rest\<rparr>) = w\<lparr>audio_queue := rest\<rparr>"
    using assms(3) s by (simp add: transcribe_segment_def Let_def)
  show ?thesis
    using s t assms(1,2) by (simp add: process_audio_body_Cons)
qed

theorem blank_text_leaves_store_witness:
  "threshold_reached ([] @ replicate 24000 0) \<and>
   strip [32, 9, 10, 160] = [] \<and>
   process_audio_body (\<lambda>x. x) \<lparr>engine = (\<lambda>pcm. Returns [32, 9, 10, 160]), clock = 5\<rparr>
     ([], \<lparr>audio_queue = [replicate 24000 0], heap = append_line (str ''hei'', 1) heap0, log_out = []\<rparr>) =
   Some (([], \<lparr>audio_queue = [], heap = append_line (str ''hei'', 1) heap0, log_out = []\<rparr>),
         Some (replicate 24000 0))"
proof -
  let ?w = "\<lparr>audio_queue = [replicate 24000 0], heap = append_line (str ''hei'', 1) heap0, log_out = []\<rparr>"
  let ?e = "\<lparr>engine = (\<lambda>pcm. Returns [32, 9, 10, 160]), clock = 5\<rparr>"
  have q: "audio_queue ?w = replicate 24000 0 # []" by simp
  have th: "threshold_reached ([] @ replicate 24000 0)"
    by (simp add: threshold_reached_iff)
  have en: "engine ?e (to_pcm (\<lambda>x. x) ([] @ replicate 24000 0)) = Returns [32, 9, 10, 160]" by simp
  have sp: "\<forall>c\<in>set [32, 9, 10, 160]. isspace c"
    by (simp add: isspace_def)
  show ?thesis
    using th blank_text_leaves_store [OF q th en sp] by simp
qed

text \<open>
  Claim C3. In a pass that closes a clip on which the engine raises, the pass ends
  normally: the exception is logged as an error, the heap with
  \<^verbatim>\<open>last_lines\<close> is as before, the buffer is empty again, and the loop goes
  on with the remaining passes from that state. The next pass blocks only when the
  queue is empty.
\<close>

theorem engine_error_is_contained:
  assumes "audio_queue w = block # rest"
    and "threshold_reached (buffer @ block)"
    and "engine e (to_pcm rnd (buffer @ block)) = Raises err"
  shows "process_audio_body rnd e (buffer, w) =
           Some (([], w\<lparr>audio_queue := rest,
                        log_out := log_out w @ [LogError (str ''Whisper error: '' @ err)]\<rparr>),
                 Some (buffer @ block)) \<and>
         heap (transcribe_segment rnd e (buffer @ block) (w\<lparr>audio_queue := rest\<rparr>)) = heap w \<and>
         process_audio_loop rnd (e # es) (buffer, w) =
           (case process_audio_loop rnd es
                   ([], w\<lparr>audio_queue := rest,
                           log_out := log_out w @ [LogError (str ''Whisper error: '' @ err)]\<rparr>) of
              (bw, segs) \<Rightarrow> (bw, (buffer @ block) # segs)) \<and>
         (process_audio_body rnd e'
            ([], w\<lparr>audio_queue := rest,
                    log_out := log_out w @ [LogError (str ''Whisper error: '' @ err)]\<rparr>) = None)
           = (rest = [])"
proof -
  have t: "transcribe_segment rnd e (buffer @ block) (w\<lparr>audio_queue := rest\<rparr>) =
           w\<lparr>audio_queue := rest, log_out := log_out w @ [LogError (str ''Whisper error: '' @ err)]\<rparr>"
    using assms(3) by (simp add: transcribe_segment_def Let_def)
  have b: "process_audio_body rnd e (buffer, w) =
           Some (([], w\<lparr>audio_queue := rest,
                        log_out := log_out w @ [LogError (str ''Whisper error: '' @ err)]\<rparr>),
                 Some (buffer @ block))"
    using t assms(1,2) by (simp add: process_audio_body_Cons)
  have n: "(process_audio_body rnd e'
            ([], w\<lparr>audio_queue := rest,
                    log_out := log_out w @ [LogError (str ''Whisper error: '' @ err)]\<rparr>) = None)
           = (rest = [])"
    by (cases rest) (simp_all add: process_audio_body_def Let_def)
  show ?thesis
    using t b n by simp
qed

theorem engine_error_is_contained_witness:
  "threshold_reached ([] @ replicate 24000 0) \<and>
   process_audio_loop (\<lambda>x. x)
     [\<lparr>engine = (\<lambda>pcm. Raises (str ''boom'')), clock = 1\<rparr>,
      \<lparr>engine = (\<lambda>pcm. Returns (str ''hei'')), clock = 2\<rparr>]
     ([], \<lparr>audio_queue = [replicate 24000 0, replicate 24000 (1 / 2)], heap = heap0, log_out = []\<rparr>) =
   (([], \<lparr>audio_queue = [], heap = append_line (str ''hei'', 2) heap0,
          log_out = [LogError (str ''Whisper error: boom''), LogInfo (str ''Detected: hei'')]\<rparr>),
    [replicate 24000 0, replicate 24000 (1 / 2)])"
proof -
  let ?e = "\<lparr>engine = (\<lambda>pcm. Raises (str ''boom'')), clock = 1\<rparr>"
  let ?w = "\<lparr>audio_queue = [replicate 24000 0, replicate 24000 (1 / 2)], heap = heap0, log_out = []\<rparr>"
  have q: "audio_queue ?w = replicate 24000 0 # [replicate 24000 (1 / 2)]" by simp
  have th: "threshold_reached ([] @ replicate 24000 0)"
    by (simp add: threshold_reached_iff)
  have en: "engine ?e (to_pcm (\<lambda>x. x) ([] @ replicate 24000 0)) = Raises (str ''boom'')" by simp
  show ?thesis
    using th engine_error_is_contained [OF q th en,
        of "[\<lparr>engine = (\<lambda>pcm. Returns (str ''hei'')), clock = 2\<rparr>]"]
    by (simp add: process_audio_body_def threshold_reached_iff transcribe_segment_def Let_def
        strip_def str_def isspace_def)
qed

section \<open>The line store\<close>

lemma py_last_slice_MAX_LINES: "py_last_slice MAX_LINES xs = drop (length xs - MAX_LINES) xs"
  by (simp add: py_last_slice_def MAX_LINES_def)

lemma cells_append_line:
  "cells (append_line l h) last_lines =
     drop (Suc (length (cells h last_lines)) - MAX_LINES) (cells h last_lines @ [l])"
  by (simp add: append_line_def Let_def py_append_def py_len_def py_slice_assign_def
      py_last_slice_MAX_LINES)

lemma cells_append_line_recent:
  assumes "cells h last_lines = drop (length ys - MAX_LINES) ys"
  shows "cells (append_line l h) last_lines = drop (length (ys @ [l]) - MAX_LINES) (ys @ [l])"
proof (cases "length ys \<le> MAX_LINES")
  case True
  then show ?thesis using assms by (simp add: cells_append_line)
next
  case False
  then have "length (cells h last_lines) = MAX_LINES"
    using assms by simp
  moreover have "0 < MAX_LINES" by (simp add: MAX_LINES_def)
  ultimately show ?thesis
    using assms False by (simp add: cells_append_line Suc_diff_le)
qed

lemma cells_transcribe_segment:
  assumes "engine e (to_pcm rnd seg) = Returns txt" and "strip txt \<noteq> []"
  shows "heap (transcribe_segment rnd e seg w) = append_line (strip txt, clock e) (heap w)"
  using assms by (simp add: transcribe_segment_def Let_def)

lemma transcriptions_recent:
  assumes "list_all2 (\<lambda>(e, seg) l. \<exists>txt. engine e (to_pcm rnd seg) = Returns txt \<and> strip txt \<noteq> [] \<and>
                         l = (strip txt, clock e)) xs ls"
    and "cells (heap w) last_lines = drop (length ys - MAX_LINES) ys"
  shows "cells (heap (foldl (\<lambda>w (e, seg). transcribe_segment rnd e seg w) w xs)) last_lines =
         drop (length (ys @ ls) - MAX_LINES) (ys @ ls)"
  using assms
proof (induction xs arbitrary: ls w ys)
  case Nil
  then show ?case by simp
next
  case (Cons x xs)
  obtain e seg where x: "x = (e, seg)" by (cases x)
  from Cons.prems(1) x obtain raw ls' where
    ls: "ls = (strip raw, clock e) # ls'" and
    en: "engine e (to_pcm rnd seg) = Returns raw" and ne: "strip raw \<noteq> []" and
    rest: "list_all2 (\<lambda>(e, seg) l. \<exists>txt. engine e (to_pcm rnd seg) = Returns txt \<and> strip txt \<noteq> [] \<and>
                         l = (strip txt, clock e)) xs ls'"
    by (auto simp: list_all2_Cons1)
  have "cells (heap (transcribe_segment rnd e seg w)) last_lines =
        drop (length (ys @ [(strip raw, clock e)]) - MAX_LINES) (ys @ [(strip raw, clock e)])"
    using cells_transcribe_segment [OF en ne] cells_append_line_recent [OF Cons.prems(2)] by simp
  from Cons.IH [OF rest this] show ?case
    using x ls by simp
qed

lemma strip_letter:
  "strip (str ''a'') = str ''a''" "strip (str ''b'') = str ''b''"
  "strip (str ''c'') = str ''c''" "strip (str ''d'') = str ''d''"
  "str ''a'' \<noteq> []" "str ''b'' \<noteq> []" "str ''c'' \<noteq> []" "str ''d'' \<noteq> []"
  by (simp_all add: strip_def str_def isspace_def)

text \<open>
  Claim C2. Start with an empty \<^verbatim>\<open>last_lines\<close> and let clips be transcribed
  one after the other, each with a result whose stripped text is not empty. After the
  first \<open>k\<close> of them the store holds exactly the last \<open>min k MAX_LINES\<close> of the
  lines produced so far, in the order they were produced, so never more than
  \<open>MAX_LINES\<close>. With the texts a, b, c, d the store ends as b, c, d.
\<close>

theorem line_store_most_recent:
  assumes "cells (heap w) last_lines = []"
    and "list_all2 (\<lambda>(e, seg) l. \<exists>raw. engine e (to_pcm rnd seg) = Returns raw \<and> strip raw \<noteq> [] \<and>
                         l = (strip raw, clock e)) xs ls"
  shows "cells (heap (foldl (\<lambda>w (e, seg). transcribe_segment rnd e seg w) w (take k xs))) last_lines =
           drop (length (take k ls) - MAX_LINES) (take k ls) \<and>
         length (cells (heap (foldl (\<lambda>w (e, seg). transcribe_segment rnd e seg w) w (take k xs))) last_lines) =
           min (length (take k ls)) MAX_LINES \<and>
         length (cells (heap (foldl (\<lambda>w (e, seg). transcribe_segment rnd e seg w) w (take k xs))) last_lines)
           \<le> MAX_LINES \<and>
         cells (heap (foldl (\<lambda>w (e, seg). transcribe_segment rnd e seg w) w
                  [(\<lparr>engine = (\<lambda>pcm. Returns (str ''a'')), clock = t1\<rparr>, s1),
                   (\<lparr>engine = (\<lambda>pcm. Returns (str ''b'')), clock = t2\<rparr>, s2),
                   (\<lparr>engine = (\<lambda>pcm. Returns (str ''c'')), clock = t3\<rparr>, s3),
                   (\<lparr>engine = (\<lambda>pcm. Returns (str ''d'')), clock = t4\<rparr>, s4)])) last_lines =
           [(str ''b'', t2), (str ''c'', t3), (str ''d'', t4)]"
proof -
  let ?P = "\<lambda>(e, seg) l. \<exists>raw. engine e (to_pcm rnd seg) = Returns raw \<and> strip raw \<noteq> [] \<and>
                         l = (strip raw, clock e)"
  let ?run = "foldl (\<lambda>w (e, seg). transcribe_segment rnd e seg w) w"
  have start: "cells (heap w) last_lines = drop (length ([]::line list) - MAX_LINES) []"
    using assms(1) by simp
  have "list_all2 ?P (take k xs) (take k ls)"
    using assms(2) by (rule list_all2_takeI)
  from transcriptions_recent [OF this start]
  have main: "cells (heap (?run (take k xs))) last_lines =
              drop (length (take k ls) - MAX_LINES) (take k ls)"
    by simp
  have len: "length (cells (heap (?run (take k xs))) last_lines) = min (length (take k ls)) MAX_LINES"
    unfolding main by simp
  let ?xs4 = "[(\<lparr>engine = (\<lambda>pcm. Returns (str ''a'')), clock = t1\<rparr>, s1),
               (\<lparr>engine = (\<lambda>pcm. Returns (str ''b'')), clock = t2\<rparr>, s2),
               (\<lparr>engine = (\<lambda>pcm. Returns (str ''c'')), clock = t3\<rparr>, s3),
               (\<lparr>engine = (\<lambda>pcm. Returns (str ''d'')), clock = t4\<rparr>, s4)]"
  let ?ls4 = "[(str ''a'', t1), (str ''b'', t2), (str ''c'', t3), (str ''d'', t4)]"
  have "list_all2 ?P ?xs4 ?ls4"
    by (simp add: strip_letter)
  from transcriptions_recent [OF this start]
  have four: "cells (heap (?run ?xs4)) last_lines = [(str ''b'', t2), (str ''c'', t3), (str ''d'', t4)]"
    by (simp add: MAX_LINES_def)
  show ?thesis
    using main len four by simp
qed

theorem line_store_most_recent_witness:
  "cells (heap \<lparr>audio_queue = [], heap = heap0, log_out = []\<rparr>) last_lines = [] \<and>
   cells (heap (foldl (\<lambda>w (e, seg). transcribe_segment (\<lambda>x. x) e seg w)
                  \<lparr>audio_queue = [], heap = heap0, log_out = []\<rparr>
                  (take 5
                    [(\<lparr>engine = (\<lambda>pcm. Returns (str ''a'')), clock = 1\<rparr>, replicate 24000 0),
                     (\<lparr>engine = (\<lambda>pcm. Returns (str ''b'')), clock = 2\<rparr>, replicate 24000 0),
                     (\<lparr>engine = (\<lambda>pcm. Returns (str ''c'')), clock = 3\<rparr>, replicate 24000 0),
                     (\<lparr>engine = (\<lambda>pcm. Returns (str ''d'')), clock = 4\<rparr>, replicate 24000 0),
                     (\<lparr>engine = (\<lambda>pcm. Returns (str ''a'')), clock = 5\<rparr>, replicate 24000 0),
                     (\<lparr>engine = (\<lambda>pcm. Returns (str ''b'')), clock = 6\<rparr>, replicate 24000 0)])))
     last_lines =
   [(str ''c'', 3), (str ''d'', 4), (str ''a'', 5)]"
proof -
  let ?w = "\<lparr>audio_queue = [], heap = heap0, log_out = []\<rparr>"
  let ?xs = "[(\<lparr>engine = (\<lambda>pcm. Returns (str ''a'')), clock = 1\<rparr>, replicate 24000 (0::real)),
              (\<lparr>engine = (\<lambda>pcm. Returns (str ''b'')), clock = 2\<rparr>, replicate 24000 0),
              (\<lparr>engine = (\<lambda>pcm. Returns (str ''c'')), clock = 3\<rparr>, replicate 24000 0),
              (\<lparr>engine = (\<lambda>pcm. Returns (str ''d'')), clock = 4\<rparr>, replicate 24000 0),
              (\<lparr>engine = (\<lambda>pcm. Returns (str ''a'')), clock = 5\<rparr>, replicate 24000 0),
              (\<lparr>engine = (\<lambda>pcm. Returns (str ''b'')), clock = 6\<rparr>, replicate 24000 0)]"
  let ?ls = "[(str ''a'', 1), (str ''b'', 2), (str ''c'', 3), (str ''d'', 4), (str ''a'', 5), (str ''b'', 6::real)]"
  have h1: "cells (heap ?w) last_lines = []"
    by (simp add: heap0_def)
  have h2: "list_all2 (\<lambda>(e, seg) l. \<exists>raw. engine e (to_pcm (\<lambda>x. x) seg) = Returns raw \<and> strip raw \<noteq> [] \<and>
                         l = (strip raw, clock e)) ?xs ?ls"
    by (simp add: strip_letter)
  have "cells (heap (foldl (\<lambda>w (e, seg). transcribe_segment (\<lambda>x. x) e seg w) ?w (take 5 ?xs))) last_lines =
           drop (length (take 5 ?ls) - MAX_LINES) (take 5 ?ls)"
    using line_store_most_recent [OF h1 h2, of 5] by blast
  also have "\<dots> = [(str ''c'', 3), (str ''d'', 4), (str ''a'', 5)]"
    by (simp add: MAX_LINES_def)
  finally show ?thesis using h1 by simp
qed

section \<open>Snapshots and events\<close>

lemma snapshot_eq:
  "snapshot h =
     (h\<lparr>cells := (cells h)(next_ref h := cells h last_lines), next_ref := Suc (next_ref h)\<rparr>,
      next_ref h)"
  by (simp add: snapshot_def py_list_def)

lemma next_ref_append_line: "next_ref (append_line l h) = next_ref h"
  by (simp add: append_line_def Let_def py_append_def py_slice_assign_def)

lemma cells_append_line_other: "r \<noteq> last_lines \<Longrightarrow> cells (append_line l h) r = cells h r"
  by (simp add: append_line_def Let_def py_append_def py_slice_assign_def)

lemma length_cells_append_line: "length (cells (append_line l h) last_lines) \<le> MAX_LINES"
  by (simp add: cells_append_line)

lemma line_json_inj: "(line_json x = line_json y) = (x = y)"
  by (cases x; cases y) (simp add: line_json_def)

lemma event_of_inj: "(event_of a = event_of b) = (a = b)"
proof -
  have "inj line_json"
    by (rule injI) (simp add: line_json_inj)
  then show ?thesis
    by (simp add: event_of_def)
qed

lemma event_of_json:
  "event_of cur =
     Data (JArray (map (\<lambda>(t, ts). JObject [(str ''text'', JString t), (str ''ts'', JNumber ts)]) cur))"
proof -
  have "line_json = (\<lambda>(t, ts). JObject [(str ''text'', JString t), (str ''ts'', JNumber ts)])"
    by (rule ext) (simp add: line_json_def)
  then show ?thesis by (simp add: event_of_def)
qed

lemma event_stream_body_None:
  "event_stream_body (None, h) = ((Some (next_ref h), fst (snapshot h)), [event_of (cells h last_lines)])"
  by (simp add: event_stream_body_def snapshot_eq py_ne_def)

lemma event_stream_body_Some:
  assumes "last_lines < next_ref h" and "p < next_ref h"
  shows "event_stream_body (Some p, h) =
           (if cells h last_lines \<noteq> cells h p
            then ((Some (next_ref h), fst (snapshot h)), [event_of (cells h last_lines)])
            else ((Some p, fst (snapshot h)), []))"
  using assms by (simp add: event_stream_body_def snapshot_eq py_ne_def)

lemma snapshot_keeps:
  "r < next_ref h \<Longrightarrow> cells (fst (snapshot h)) r = cells h r"
  "next_ref (fst (snapshot h)) = Suc (next_ref h)"
  "cells (fst (snapshot h)) (next_ref h) = cells h last_lines"
  by (simp_all add: snapshot_eq)

lemma transcribe_segment_store_bounded:
  assumes "last_lines < next_ref (heap w)" and "length (cells (heap w) last_lines) \<le> MAX_LINES"
  shows "last_lines < next_ref (heap (transcribe_segment rnd e buffer w)) \<and>
         length (cells (heap (transcribe_segment rnd e buffer w)) last_lines) \<le> MAX_LINES"
  using assms
  by (simp add: transcribe_segment_def Let_def next_ref_append_line length_cells_append_line
      split: engine_result.splits)

lemma process_audio_loop_store_bounded:
  assumes "process_audio_loop rnd es (buffer, w) = ((buffer', w'), segs)"
    and "last_lines < next_ref (heap w)" and "length (cells (heap w) last_lines) \<le> MAX_LINES"
  shows "last_lines < next_ref (heap w') \<and> length (cells (heap w') last_lines) \<le> MAX_LINES"
  using assms
proof (induction es arbitrary: buffer w segs)
  case Nil
  then show ?case by simp
next
  case (Cons e es)
  show ?case
  proof (cases "audio_queue w")
    case Nil
    with Cons.prems show ?thesis by (simp add: process_audio_body_Nil)
  next
    case q: (Cons block rest)
    let ?v = "w\<lparr>audio_queue := rest\<rparr>"
    have v: "last_lines < next_ref (heap ?v)" "length (cells (heap ?v) last_lines) \<le> MAX_LINES"
      using Cons.prems(2,3) by simp_all
    show ?thesis
    proof (cases "threshold_reached (buffer @ block)")
      case True
      let ?w1 = "transcribe_segment rnd e (buffer @ block) ?v"
      obtain bw2 segs2 where r: "process_audio_loop rnd es ([], ?w1) = (bw2, segs2)"
        by (cases "process_audio_loop rnd es ([], ?w1)")
      with Cons.prems(1) q True have "bw2 = (buffer', w')"
        by (simp add: process_audio_body_Cons)
      with r have run: "process_audio_loop rnd es ([], ?w1) = ((buffer', w'), segs2)" by simp
      have b: "last_lines < next_ref (heap ?w1) \<and> length (cells (heap ?w1) last_lines) \<le> MAX_LINES"
        using v by (rule transcribe_segment_store_bounded)
      show ?thesis
        using Cons.IH [OF run] b by blast
    next
      case False
      obtain bw2 segs2 where r: "process_audio_loop rnd es (buffer @ block, ?v) = (bw2, segs2)"
        by (cases "process_audio_loop rnd es (buffer @ block, ?v)")
      with Cons.prems(1) q False have "bw2 = (buffer', w')"
        by (simp add: process_audio_body_Cons)
      with r have run: "process_audio_loop rnd es (buffer @ block, ?v) = ((buffer', w'), segs2)" by simp
      show ?thesis
        using Cons.IH [OF run] v by blast
    qed
  qed
qed

text \<open>
  The invariant of a connection: \<^verbatim>\<open>last_lines\<close> is allocated and within its
  capacity, and \<^verbatim>\<open>prev\<close> is either \<^verbatim>\<open>None\<close> with nothing sent yet, or
  an object of its own whose elements are those of the last event sent.
\<close>

lemma event_stream_loop_invariant:
  assumes "event_stream_loop ops (prev, h) = ((prev', h'), out)"
    and "last_lines < next_ref h"
    and "length (cells h last_lines) \<le> MAX_LINES"
    and "case prev of None \<Rightarrow> evs = []
         | Some p \<Rightarrow> p < next_ref h \<and> p \<noteq> last_lines \<and> evs \<noteq> [] \<and> last evs = event_of (cells h p)"
  shows "last_lines < next_ref h' \<and> length (cells h' last_lines) \<le> MAX_LINES \<and>
         (case prev' of None \<Rightarrow> evs @ out = []
          | Some p \<Rightarrow> p < next_ref h' \<and> p \<noteq> last_lines \<and> evs @ out \<noteq> [] \<and>
              last (evs @ out) = event_of (cells h' p))"
  using assms
proof (induction ops arbitrary: prev h out evs)
  case Nil
  then show ?case by (auto split: option.splits)
next
  case (Cons op ops)
  show ?case
  proof (cases op)
    case (Append l)
    have run: "event_stream_loop ops (prev, append_line l h) = ((prev', h'), out)"
      using Cons.prems(1) Append by simp
    have a: "last_lines < next_ref (append_line l h)"
      using Cons.prems(2) by (simp add: next_ref_append_line)
    have b: "length (cells (append_line l h) last_lines) \<le> MAX_LINES"
      by (rule length_cells_append_line)
    have c: "case prev of None \<Rightarrow> evs = []
         | Some p \<Rightarrow> p < next_ref (append_line l h) \<and> p \<noteq> last_lines \<and> evs \<noteq> [] \<and>
             last evs = event_of (cells (append_line l h) p)"
      using Cons.prems(4)
      by (auto simp: next_ref_append_line cells_append_line_other split: option.splits)
    show ?thesis
      by (rule Cons.IH [OF run a b c])
  next
    case Poll
    obtain ph1 out1 where body: "event_stream_body (prev, h) = (ph1, out1)"
      by (cases "event_stream_body (prev, h)")
    obtain prev1 h1 where ph1: "ph1 = (prev1, h1)" by (cases ph1)
    obtain ph2 out2 where rest: "event_stream_loop ops (prev1, h1) = (ph2, out2)"
      by (cases "event_stream_loop ops (prev1, h1)")
    have fin: "ph2 = (prev', h')" "out = out1 @ out2"
      using Cons.prems(1) Poll body ph1 rest by simp_all
    have h1: "h1 = fst (snapshot h)"
      using body ph1 by (auto simp: event_stream_body_def split: prod.splits if_splits)
    have a: "last_lines < next_ref h1"
      using Cons.prems(2) h1 by (simp add: snapshot_keeps)
    have b: "length (cells h1 last_lines) \<le> MAX_LINES"
      using Cons.prems(2,3) h1 by (simp add: snapshot_keeps)
    have c: "case prev1 of None \<Rightarrow> evs @ out1 = []
         | Some p \<Rightarrow> p < next_ref h1 \<and> p \<noteq> last_lines \<and> evs @ out1 \<noteq> [] \<and>
             last (evs @ out1) = event_of (cells h1 p)"
    proof (cases prev)
      case None
      then have "prev1 = Some (next_ref h)" "out1 = [event_of (cells h last_lines)]"
        using body ph1 by (simp_all add: event_stream_body_None)
      then show ?thesis
        using Cons.prems(2) h1 by (simp add: snapshot_keeps)
    next
      case (Some p)
      then have p: "p < next_ref h" "p \<noteq> last_lines" "evs \<noteq> []" "last evs = event_of (cells h p)"
        using Cons.prems(4) by simp_all
      show ?thesis
      proof (cases "cells h last_lines \<noteq> cells h p")
        case True
        then have "prev1 = Some (next_ref h)" "out1 = [event_of (cells h last_lines)]"
          using body ph1 Some event_stream_body_Some [OF Cons.prems(2) p(1)] by simp_all
        then show ?thesis
          using Cons.prems(2) h1 by (simp add: snapshot_keeps)
      next
        case False
        then have "prev1 = Some p" "out1 = []"
          using body ph1 Some event_stream_body_Some [OF Cons.prems(2) p(1)] by simp_all
        then show ?thesis
          using p h1 by (simp add: snapshot_keeps)
      qed
    qed
    have "last_lines < next_ref h' \<and> length (cells h' last_lines) \<le> MAX_LINES \<and>
         (case prev' of None \<Rightarrow> (evs @ out1) @ out2 = []
          | Some p \<Rightarrow> p < next_ref h' \<and> p \<noteq> last_lines \<and> (evs @ out1) @ out2 \<noteq> [] \<and>
              last ((evs @ out1) @ out2) = event_of (cells h' p))"
      using rest fin(1) by (intro Cons.IH [OF _ a b c]) simp
    then show ?thesis
      unfolding fin(2) append_assoc .
  qed
qed

text \<open>
  Claim C7. Two snapshots taken one after the other, with nothing in between, are two
  different list objects with the same elements, those of \<^verbatim>\<open>last_lines\<close>;
  \<^verbatim>\<open>last_lines\<close> itself has the same elements before, between and after.
\<close>

theorem snapshot_twice_equal:
  "(case snapshot h of (h1, a) \<Rightarrow>
      (case snapshot h1 of (h2, b) \<Rightarrow>
         cells h2 a = cells h2 b \<and>
         cells h2 a = cells h last_lines \<and>
         cells h1 last_lines = cells h last_lines \<and>
         cells h2 last_lines = cells h last_lines \<and>
         a \<noteq> b))"
  by (simp add: snapshot_eq)

text \<open>
  Claim C4. Open a connection on a heap where \<^verbatim>\<open>last_lines\<close> is allocated
  and within capacity, and let appends and passes of the generator follow in any order.
  The next pass yields an event exactly when nothing has been sent yet or the last
  event sent is not the event of the current elements of \<^verbatim>\<open>last_lines\<close>;
  events are equal exactly when the snapshots are equal as values. The event is the
  array of the objects with \<^verbatim>\<open>text\<close> and \<^verbatim>\<open>ts\<close>, one per stored line
  in the order of the list, and the list has at most \<open>MAX_LINES\<close> elements.
\<close>

theorem stream_event_iff_changed:
  assumes "last_lines < next_ref h0"
    and "length (cells h0 last_lines) \<le> MAX_LINES"
    and "event_stream ops h0 = ((prev, h), evs)"
  shows "snd (event_stream_body (prev, h)) =
           (if evs = [] \<or> last evs \<noteq> event_of (cells h last_lines)
            then [event_of (cells h last_lines)] else []) \<and>
         ((event_of a = event_of b) = (a = b)) \<and>
         event_of (cells h last_lines) =
           Data (JArray (map (\<lambda>(t, ts). JObject [(str ''text'', JString t), (str ''ts'', JNumber ts)])
                          (cells h last_lines))) \<and>
         length (cells h last_lines) \<le> MAX_LINES"
proof -
  have run: "event_stream_loop ops (None, h0) = ((prev, h), evs)"
    using assms(3) by (simp add: event_stream_def)
  have start: "case None of None \<Rightarrow> ([]::sse_event list) = []
         | Some p \<Rightarrow> p < next_ref h0 \<and> p \<noteq> last_lines \<and> ([]::sse_event list) \<noteq> [] \<and>
             last [] = event_of (cells h0 p)"
    by simp
  have inv: "last_lines < next_ref h \<and> length (cells h last_lines) \<le> MAX_LINES \<and>
         (case prev of None \<Rightarrow> [] @ evs = []
          | Some p \<Rightarrow> p < next_ref h \<and> p \<noteq> last_lines \<and> [] @ evs \<noteq> [] \<and>
              last ([] @ evs) = event_of (cells h p))"
    by (rule event_stream_loop_invariant [OF run assms(1,2) start])
  have body: "snd (event_stream_body (prev, h)) =
           (if evs = [] \<or> last evs \<noteq> event_of (cells h last_lines)
            then [event_of (cells h last_lines)] else [])"
  proof (cases prev)
    case None
    then show ?thesis using inv by (simp add: event_stream_body_None)
  next
    case (Some p)
    then have p: "p < next_ref h" "evs \<noteq> []" "last evs = event_of (cells h p)"
      using inv by simp_all
    have al: "last_lines < next_ref h" using inv by simp
    show ?thesis
      using Some p(2,3) event_stream_body_Some [OF al p(1)] by (auto simp: event_of_inj)
  qed
  show ?thesis
    using body inv event_of_inj [of a b] event_of_json [of "cells h last_lines"] by simp
qed

theorem stream_event_iff_changed_witness:
  "last_lines < next_ref heap0 \<and> length (cells heap0 last_lines) \<le> MAX_LINES \<and>
   snd (event_stream [Poll, Append (str ''hei'', 1), Poll] heap0) =
     [event_of [], event_of [(str ''hei'', 1)]] \<and>
   snd (event_stream_body (fst (event_stream [Poll, Append (str ''hei'', 1), Poll] heap0))) = [] \<and>
   snd (event_stream [Poll, Append (str ''hei'', 1)] heap0) = [event_of []] \<and>
   snd (event_stream_body (fst (event_stream [Poll, Append (str ''hei'', 1)] heap0))) =
     [event_of [(str ''hei'', 1)]]"
proof -
  have a: "last_lines < next_ref heap0"
    by (simp add: last_lines_def heap0_def)
  have b: "length (cells heap0 last_lines) \<le> MAX_LINES"
    by (simp add: heap0_def)
  obtain prev1 h1 evs1 where
    run1: "event_stream [Poll, Append (str ''hei'', 1), Poll] heap0 = ((prev1, h1), evs1)"
    by (metis prod.exhaust)
  obtain prev2 h2 evs2 where
    run2: "event_stream [Poll, Append (str ''hei'', 1)] heap0 = ((prev2, h2), evs2)"
    by (metis prod.exhaust)
  have e1: "evs1 = [event_of [], event_of [(str ''hei'', 1)]]"
    and c1: "cells h1 last_lines = [(str ''hei'', 1)]"
    using run1
    by (auto simp add: event_stream_def event_stream_body_def snapshot_eq py_ne_def
        append_line_def py_append_def py_len_def py_slice_assign_def Let_def
        MAX_LINES_def last_lines_def heap0_def)
  have e2: "evs2 = [event_of []]"
    and c2: "cells h2 last_lines = [(str ''hei'', 1)]"
    using run2
    by (auto simp add: event_stream_def event_stream_body_def snapshot_eq py_ne_def
        append_line_def py_append_def py_len_def py_slice_assign_def Let_def
        MAX_LINES_def last_lines_def heap0_def)
  have ne: "event_of [] \<noteq> event_of [(str ''hei'', 1)]"
    by (simp add: event_of_inj)
  have "snd (event_stream_body (prev1, h1)) = []"
    using stream_event_iff_changed [OF a b run1] e1 c1 by simp
  moreover have "snd (event_stream_body (prev2, h2)) = [event_of [(str ''hei'', 1)]]"
    using stream_event_iff_changed [OF a b run2] e2 c2 ne by simp
  ultimately show ?thesis
    unfolding run1 run2 using a b e1 e2 by simp
qed

text \<open>
  Claim C8. The first pass of a new connection compares with \<^verbatim>\<open>None\<close>, which
  differs from every list, and yields one event, whatever the heap: the array of the
  objects with \<^verbatim>\<open>text\<close> and \<^verbatim>\<open>ts\<close> of the lines of
  \<^verbatim>\<open>last_lines\<close> at that moment, in their order. It is the first event of the
  connection. For an empty \<^verbatim>\<open>last_lines\<close>, as at start, the event is the
  empty array; for a store holding one line it is the array of that line's object.
\<close>

theorem first_poll_sends_snapshot:
  "snd (event_stream_body (None, h)) = [event_of (cells h last_lines)] \<and>
   snd (event_stream_body (None, h)) =
     [Data (JArray (map (\<lambda>(t, ts). JObject [(str ''text'', JString t), (str ''ts'', JNumber ts)])
                     (cells h last_lines)))] \<and>
   snd (event_stream (Poll # ops) h) =
     event_of (cells h last_lines) # snd (event_stream_loop ops (fst (event_stream_body (None, h)))) \<and>
   snd (event_stream (Poll # ops) h) =
     Data (JArray (map (\<lambda>(t, ts). JObject [(str ''text'', JString t), (str ''ts'', JNumber ts)])
                    (cells h last_lines))) #
     snd (event_stream_loop ops (fst (event_stream_body (None, h)))) \<and>
   py_ne h1 cur None \<and>
   event_of [] = Data (JArray []) \<and>
   snd (event_stream_body (None, heap0)) = [Data (JArray [])] \<and>
   snd (event_stream_body (None, append_line (str ''hei'', 1) heap0)) =
     [Data (JArray [JObject [(str ''text'', JString (str ''hei'')), (str ''ts'', JNumber 1)]])] \<and>
   snd (event_stream [Append (str ''a'', 1), Append (str ''b'', 2), Append (str ''c'', 3),
                      Append (str ''d'', 4), Poll] heap0) =
     [Data (JArray [JObject [(str ''text'', JString (str ''b'')), (str ''ts'', JNumber 2)],
                    JObject [(str ''text'', JString (str ''c'')), (str ''ts'', JNumber 3)],
                    JObject [(str ''text'', JString (str ''d'')), (str ''ts'', JNumber 4)]])]"
proof -
  have one: "snd (event_stream_body (None, h')) = [event_of (cells h' last_lines)]" for h'
    by (simp add: event_stream_body_None)
  have run: "snd (event_stream (Poll # ops) h) =
     event_of (cells h last_lines) # snd (event_stream_loop ops (fst (event_stream_body (None, h))))"
    by (simp add: event_stream_def event_stream_body_None split: prod.splits)
  have empty: "event_of [] = Data (JArray [])"
    by (simp add: event_of_def)
  have "cells heap0 last_lines = []"
    by (simp add: heap0_def)
  then have zero: "snd (event_stream_body (None, heap0)) = [Data (JArray [])]"
    using one [of heap0] empty by simp
  have "cells (append_line (str ''hei'', 1) heap0) last_lines = [(str ''hei'', 1)]"
    by (simp add: cells_append_line heap0_def MAX_LINES_def)
  then have single: "snd (event_stream_body (None, append_line (str ''hei'', 1) heap0)) =
     [Data (JArray [JObject [(str ''text'', JString (str ''hei'')), (str ''ts'', JNumber 1)]])]"
    using one [of "append_line (str ''hei'', 1) heap0"] by (simp add: event_of_json)
  let ?h4 = "append_line (str ''d'', 4) (append_line (str ''c'', 3)
               (append_line (str ''b'', 2) (append_line (str ''a'', 1) heap0)))"
  have "cells ?h4 last_lines = [(str ''b'', 2), (str ''c'', 3), (str ''d'', 4)]"
    by (simp add: cells_append_line heap0_def MAX_LINES_def)
  then have full: "snd (event_stream [Append (str ''a'', 1), Append (str ''b'', 2), Append (str ''c'', 3),
                      Append (str ''d'', 4), Poll] heap0) =
     [Data (JArray [JObject [(str ''text'', JString (str ''b'')), (str ''ts'', JNumber 2)],
                    JObject [(str ''text'', JString (str ''c'')), (str ''ts'', JNumber 3)],
                    JObject [(str ''text'', JString (str ''d'')), (str ''ts'', JNumber 4)]])]"
    using one [of ?h4] by (simp add: event_stream_def event_of_json split: prod.splits)
  have json: "event_of (cells h last_lines) =
     Data (JArray (map (\<lambda>(t, ts). JObject [(str ''text'', JString t), (str ''ts'', JNumber ts)])
                    (cells h last_lines)))"
    by (rule event_of_json)
  have p: "py_ne h1 cur None"
    by (simp add: py_ne_def)
  show ?thesis
    using one [of h] run json empty zero single full p by (simp only: simp_thms)
qed

end
